theory Spec2Isabelle
  imports Main
begin

section \<open>Python strings\<close>

text \<open>
  Strings are lists of characters, a character being a code point below 256. The
  four characters the controllers treat specially are named once; a backslash
  cannot be written inside a string literal.
\<close>

definition bslash :: char where
  "bslash = CHR 0x5C"

definition LF :: char where
  "LF = CHR 0x0A"

definition CR :: char where
  "CR = CHR 0x0D"

definition hash_sign :: char where
  "hash_sign = CHR 0x23"

definition startswith :: "string \<Rightarrow> string \<Rightarrow> bool" where
  \<comment> \<open>\<^verbatim>\<open>s.startswith(p)\<close>\<close>
  "startswith s p = (take (length p) s = p)"

definition endswith :: "string \<Rightarrow> string \<Rightarrow> bool" where
  \<comment> \<open>\<^verbatim>\<open>s.endswith(p)\<close>\<close>
  "endswith s p = (length p \<le> length s \<and> drop (length s - length p) s = p)"

definition isspace :: "char \<Rightarrow> bool" where
  \<comment> \<open>the characters \<^verbatim>\<open>strip()\<close> removes from a text string: tab, LF, VT, FF, CR,
      the four separators 0x1C..0x1F, the space, NEL and the no-break space\<close>
  "isspace c = (of_char c \<in> set [9, 10, 11, 12, 13, 28, 29, 30, 31, 32, 133, 160 :: nat])"

definition strip :: "string \<Rightarrow> string" where
  \<comment> \<open>\<^verbatim>\<open>s.strip()\<close>: whitespace removed at both ends\<close>
  "strip s = rev (dropWhile isspace (rev (dropWhile isspace s)))"

text \<open>
  \<^verbatim>\<open>s.replace(old, new)\<close> replaces the non-overlapping occurrences of \<open>old\<close>
  from left to right. With an empty \<open>old\<close> Python puts \<open>new\<close> before every
  character and at the end.
\<close>

function replace :: "string \<Rightarrow> string \<Rightarrow> string \<Rightarrow> string" where
  "replace old new s =
     (if old = [] then new @ concat (map (\<lambda>c. c # new) s)
      else if startswith s old then new @ replace old new (drop (length old) s)
      else (case s of [] \<Rightarrow> [] | c # cs \<Rightarrow> c # replace old new cs))"
  by pat_completeness auto
termination
proof (relation "measure (\<lambda>(old, new, s). length s)")
  show "wf (measure (\<lambda>(old, new, s). length s))"
    by simp
next
  fix old new s :: string
  assume ne: "old \<noteq> []" and st: "startswith s old"
  from st have "length (take (length old) s) = length old"
    unfolding startswith_def by simp
  then have "length old \<le> length s"
    by simp
  with ne show "((old, new, drop (length old) s), (old, new, s)) \<in> measure (\<lambda>(old, new, s). length s)"
    by (cases old) auto
next
  fix old new s :: string and c cs
  assume "s = c # cs"
  then show "((old, new, cs), (old, new, s)) \<in> measure (\<lambda>(old, new, s). length s)"
    by simp
qed

declare replace.simps [simp del]

definition split_once :: "char \<Rightarrow> string \<Rightarrow> string list" where
  \<comment> \<open>\<^verbatim>\<open>s.split(sep, 1)\<close> for a one-character separator: split at the first
      \<open>sep\<close> when there is one\<close>
  "split_once sep s =
     (if sep \<in> set s
      then [takeWhile (\<lambda>c. c \<noteq> sep) s, tl (dropWhile (\<lambda>c. c \<noteq> sep) s)]
      else [s])"

definition lower :: "string \<Rightarrow> string" where
  \<comment> \<open>\<^verbatim>\<open>s.lower()\<close>: the letters A..Z, and the capital letters 0xC0..0xDE other than
      the multiplication sign 0xD7, move up by 32\<close>
  "lower s =
     map (\<lambda>c. let n = (of_char c :: nat)
              in if (65 \<le> n \<and> n \<le> 90) \<or> (192 \<le> n \<and> n \<le> 222 \<and> n \<noteq> 215)
                 then char_of (n + 32) else c) s"

section \<open>Values, setting records and the owner\<close>

text \<open>
  A field of a parsed record holds \<^verbatim>\<open>None\<close>, a string or a list of strings;
  \<^verbatim>\<open>!=\<close> between such values is structural inequality.
\<close>

datatype pyval = PNone | PStr string | PList "string list"

text \<open>
  A controller reaches its owner (\<^verbatim>\<open>self._parent\<close>), the owner's factory and the
  message bus only to call them. The calls are recorded in the order they are
  made.
\<close>

datatype event =
    MarkDirty
  | NotifySettingsChanged
  | NotifyStepsChanged
  | NotifyImportsModified
  | ResourceImportModified string
  | RideImportSettingChanged string string
  | FindWithImport string

text \<open>
  The wrapped record (\<^verbatim>\<open>self._data\<close>, also reached as \<^verbatim>\<open>self._fixture\<close>,
  \<^verbatim>\<open>self._tags\<close>, \<^verbatim>\<open>self._timeout\<close>, ...) with the fields the controllers read
  and write.
\<close>

record setting =
  val :: pyval
  name :: pyval
  args :: pyval
  message :: pyval
  comment :: pyval

datatype error = TypeError | AttributeError

datatype setting_class =
    Documentation | Fixture | Tags | DefaultTags | ForceTags
  | Timeout | Template | Arguments | ReturnValue

record controller =
  cls :: setting_class
  data :: setting
  parent_calls :: "event list"

text \<open>
  Modelled from the spec: \<^verbatim>\<open>ControllerWithParent.mark_dirty\<close> is in
  \<^verbatim>\<open>basecontroller.py\<close>, which is not among the sources; the spec says it marks the
  owner dirty.
\<close>

definition mark_dirty :: "controller \<Rightarrow> controller" where
  "mark_dirty c = c\<lparr>parent_calls := parent_calls c @ [MarkDirty]\<rparr>"

definition notify_steps_changed :: "controller \<Rightarrow> controller" where
  "notify_steps_changed c = c\<lparr>parent_calls := parent_calls c @ [NotifyStepsChanged]\<rparr>"

definition notify_settings_changed :: "controller \<Rightarrow> controller" where
  "notify_settings_changed c = c\<lparr>parent_calls := parent_calls c @ [NotifySettingsChanged]\<rparr>"

section \<open>Setting controllers\<close>

text \<open>
  \<^verbatim>\<open>utils.split_value\<close> is not among the sources. Every function that calls it
  takes it as the parameter \<open>sv\<close>, so what is proved holds for any splitter.
\<close>

type_synonym splitter = "pyval \<Rightarrow> string list"

definition split_from_separators :: "splitter \<Rightarrow> string \<Rightarrow> string list" where
  "split_from_separators sv v = sv (PStr v)"

definition Fixture_parse :: "splitter \<Rightarrow> string \<Rightarrow> string \<times> string list" where
  \<comment> \<open>\<^verbatim>\<open>(value[0], value[1:]) if value else ('', [])\<close>\<close>
  "Fixture_parse sv v =
     (case split_from_separators sv v of [] \<Rightarrow> ([], []) | x # xs \<Rightarrow> (x, xs))"

definition Timeout_parse :: "string \<Rightarrow> string \<times> string" where
  "Timeout_parse v =
     (let parts = split_once (CHR ''|'') v;
          v' = (if parts \<noteq> [] then strip (parts ! 0) else []);
          msg = (if length parts = 2 then strip (parts ! 1) else [])
      in (v', msg))"

text \<open>
  \<^verbatim>\<open>_changed\<close>: the base class compares the input with the stored value as it
  is; Fixture, Tags (and its two subclasses), Timeout, Arguments and ReturnValue
  override it and compare what their \<^verbatim>\<open>_set\<close> would store.
\<close>

definition changed :: "splitter \<Rightarrow> controller \<Rightarrow> string \<Rightarrow> bool" where
  "changed sv c v =
     (case cls c of
        Fixture \<Rightarrow>
          (let (n, a) = Fixture_parse sv v
           in name (data c) \<noteq> PStr n \<or> args (data c) \<noteq> PList a)
      | Tags \<Rightarrow> val (data c) \<noteq> PList (split_from_separators sv v)
      | DefaultTags \<Rightarrow> val (data c) \<noteq> PList (split_from_separators sv v)
      | ForceTags \<Rightarrow> val (data c) \<noteq> PList (split_from_separators sv v)
      | Timeout \<Rightarrow>
          (let (v', msg) = Timeout_parse v
           in val (data c) \<noteq> PStr v' \<or> message (data c) \<noteq> PStr msg)
      | Arguments \<Rightarrow> val (data c) \<noteq> PList (split_from_separators sv v)
      | ReturnValue \<Rightarrow> val (data c) \<noteq> PList (split_from_separators sv v)
      | Documentation \<Rightarrow> PStr v \<noteq> val (data c)
      | Template \<Rightarrow> PStr v \<noteq> val (data c))"

definition base_set :: "string \<Rightarrow> controller \<Rightarrow> controller" where
  \<comment> \<open>\<^verbatim>\<open>_SettingController._set\<close>\<close>
  "base_set v c = c\<lparr>data := (data c)\<lparr>val := PStr v\<rparr>\<rparr>"

definition set_split :: "splitter \<Rightarrow> string \<Rightarrow> controller \<Rightarrow> controller" where
  \<comment> \<open>\<^verbatim>\<open>self._tags.value = self._split_from_separators(value)\<close>, the same
      assignment in Tags, Arguments and ReturnValue\<close>
  "set_split sv v c = c\<lparr>data := (data c)\<lparr>val := PList (split_from_separators sv v)\<rparr>\<rparr>"

definition set' :: "splitter \<Rightarrow> string \<Rightarrow> controller \<Rightarrow> controller" where
  \<comment> \<open>\<^verbatim>\<open>_set\<close>, dispatched on the class\<close>
  "set' sv v c =
     (case cls c of
        Fixture \<Rightarrow>
          (let (n, a) = Fixture_parse sv v
           in c\<lparr>data := (data c)\<lparr>name := PStr n, args := PList a\<rparr>\<rparr>)
      | Tags \<Rightarrow> set_split sv v c
      | DefaultTags \<Rightarrow> set_split sv v c
      | ForceTags \<Rightarrow> set_split sv v c
      | Timeout \<Rightarrow>
          (let (v', msg) = Timeout_parse v
           in c\<lparr>data := (data c)\<lparr>val := PStr v', message := PStr msg\<rparr>\<rparr>)
      | Arguments \<Rightarrow> notify_settings_changed (set_split sv v c)
      | ReturnValue \<Rightarrow> set_split sv v c
      | Documentation \<Rightarrow> base_set v c
      | Template \<Rightarrow> notify_steps_changed (base_set v c))"

definition set_value :: "splitter \<Rightarrow> string \<Rightarrow> controller \<Rightarrow> controller" where
  "set_value sv v c = (if changed sv c v then mark_dirty (set' sv v c) else c)"

text \<open>
  \<^verbatim>\<open>clear\<close>: the record's own \<^verbatim>\<open>reset()\<close> belongs to the parser library and is
  the parameter \<open>reset\<close>. Template and Arguments add a notification to the base
  method.
\<close>

definition base_clear :: "(setting \<Rightarrow> setting) \<Rightarrow> controller \<Rightarrow> controller" where
  "base_clear reset c = mark_dirty (c\<lparr>data := (reset (data c))\<lparr>comment := PNone\<rparr>\<rparr>)"

definition clear :: "(setting \<Rightarrow> setting) \<Rightarrow> controller \<Rightarrow> controller" where
  "clear reset c =
     (case cls c of
        Template \<Rightarrow> notify_steps_changed (base_clear reset c)
      | Arguments \<Rightarrow> notify_settings_changed (base_clear reset c)
      | _ \<Rightarrow> base_clear reset c)"

definition replace_keyword :: "string \<Rightarrow> controller \<Rightarrow> error + controller" where
  \<comment> \<open>defined by Fixture (on the fixture's name) and by Template (on its value);
      the other classes have no such attribute\<close>
  "replace_keyword new_name c =
     (case cls c of
        Fixture \<Rightarrow> Inr (mark_dirty (c\<lparr>data := (data c)\<lparr>name := PStr new_name\<rparr>\<rparr>))
      | Template \<Rightarrow> Inr (mark_dirty (c\<lparr>data := (data c)\<lparr>val := PStr new_name\<rparr>\<rparr>))
      | _ \<Rightarrow> Inl AttributeError)"

section \<open>Documentation controller\<close>

text \<open>
  The three patterns of \<^verbatim>\<open>newline_regexps\<close> all have the shape \<^verbatim>\<open>(\\+)LIT\<close>:
  one or more backslashes, captured, then a fixed text. \<open>match_at lit s\<close> is the
  match of such a pattern at the start of \<open>s\<close>: the greedy \<^verbatim>\<open>\\+\<close> first takes
  the whole run of backslashes and gives them back one at a time until \<open>lit\<close>
  follows. It returns the length of group 1 and the text after the match.
\<close>

fun count_bslashes :: "string \<Rightarrow> nat" where
  "count_bslashes [] = 0"
| "count_bslashes (c # cs) = (if c = bslash then Suc (count_bslashes cs) else 0)"

definition match_at :: "string \<Rightarrow> string \<Rightarrow> (nat \<times> string) option" where
  "match_at lit s =
     (case find (\<lambda>j. startswith (drop j s) lit) (rev [1 ..< Suc (count_bslashes s)]) of
        None \<Rightarrow> None
      | Some j \<Rightarrow> Some (j, drop (j + length lit) s))"

definition newline_replacer :: "nat \<Rightarrow> string \<Rightarrow> string" where
  \<comment> \<open>\<open>blashes\<close> is \<^verbatim>\<open>len(match.group(1))\<close>; the whole match is that many
      backslashes and \<open>lit\<close>\<close>
  "newline_replacer blashes lit =
     (if blashes mod 2 = 1 then replicate (blashes - 1) bslash @ [LF]
      else replicate blashes bslash @ lit)"

text \<open>
  \<^verbatim>\<open>regexp.sub(self._newline_replacer, item)\<close>: the matches are found from left
  to right and do not overlap; a character at which no match starts is copied.
\<close>

function regexp_sub :: "string \<Rightarrow> string \<Rightarrow> string" where
  "regexp_sub lit s =
     (case match_at lit s of
        Some (blashes, rest) \<Rightarrow> newline_replacer blashes lit @ regexp_sub lit rest
      | None \<Rightarrow> (case s of [] \<Rightarrow> [] | c # cs \<Rightarrow> c # regexp_sub lit cs))"
  by pat_completeness auto
termination
proof (relation "measure (\<lambda>(lit, s). length s)")
  show "wf (measure (\<lambda>(lit, s). length s))"
    by simp
next
  fix lit s :: string and x blashes rest
  assume m: "match_at lit s = Some x" and x: "(blashes, rest) = x"
  from m x obtain j where
    f: "find (\<lambda>j. startswith (drop j s) lit) (rev [1 ..< Suc (count_bslashes s)]) = Some j"
    and r: "rest = drop (j + length lit) s"
    unfolding match_at_def by (auto split: option.splits)
  from f have "j \<in> set (rev [1 ..< Suc (count_bslashes s)])"
    by (metis find_Some_iff nth_mem)
  then have j: "1 \<le> j" and k: "0 < count_bslashes s"
    by auto
  from k have "s \<noteq> []"
    by auto
  with j r have "length rest < length s"
    by (cases s) auto
  then show "((lit, rest), (lit, s)) \<in> measure (\<lambda>(lit, s). length s)"
    by simp
next
  fix lit s :: string and c cs
  assume "s = c # cs"
  then show "((lit, cs), (lit, s)) \<in> measure (\<lambda>(lit, s). length s)"
    by simp
qed

declare regexp_sub.simps [simp del]

definition newline_regexps :: "string list" where
  \<comment> \<open>the fixed texts of \<^verbatim>\<open>(\\+)r\\n\<close>, \<^verbatim>\<open>(\\+)n\<close> and \<^verbatim>\<open>(\\+)r\<close>\<close>
  "newline_regexps = [[CHR ''r'', bslash, CHR ''n''], [CHR ''n''], [CHR ''r'']]"

definition unescape_newlines_and_handle_escaped_backslashes :: "string \<Rightarrow> string" where
  "unescape_newlines_and_handle_escaped_backslashes item =
     fold regexp_sub newline_regexps item"

definition escape_newlines_and_leading_hash :: "string \<Rightarrow> string" where
  "escape_newlines_and_leading_hash item =
     (let item' = fold (\<lambda>newline it. replace newline [bslash, CHR ''n''] it)
                    [[CR, LF], [LF], [CR]] item
      in if startswith (strip item') [hash_sign] then bslash # item' else item')"

definition get_editable_value :: "controller \<Rightarrow> error + string" where
  \<comment> \<open>\<^verbatim>\<open>regexp.sub\<close> raises TypeError on a value that is not a string\<close>
  "get_editable_value c =
     (case val (data c) of
        PStr s \<Rightarrow> Inr (unescape_newlines_and_handle_escaped_backslashes s)
      | _ \<Rightarrow> Inl TypeError)"

definition set_editable_value :: "splitter \<Rightarrow> string \<Rightarrow> controller \<Rightarrow> controller" where
  "set_editable_value sv v c = set_value sv (escape_newlines_and_leading_hash v) c"

section \<open>Tags controllers\<close>

text \<open>
  Modelled from the spec: the data file controllers are not among the sources. A
  data file (\<open>obj\<close> in \<^verbatim>\<open>_recursive_gather_from\<close>) has the two tag settings of its
  setting table, each \<^verbatim>\<open>None\<close> or a list of names, and a parent that is \<^verbatim>\<open>None\<close>
  at the top of the hierarchy.
\<close>

datatype datafile =
  DataFile (source: string)
           (setting_table_force_tags: "string list option")
           (setting_table_default_tags: "string list option")
           (parent: "datafile option")

text \<open>
  The three tags controllers. A ForceTagsController iterates from its parent
  only; a DefaultTagsController reads its own record; a TagsController reads its
  own record and the \<^verbatim>\<open>force_tags\<close> and \<^verbatim>\<open>default_tags\<close> of its owner.
\<close>

datatype tags_controller =
    ForceTagsController "datafile option"
  | DefaultTagsController datafile "string list option"
  | TagsController (owner_force_tags: tags_controller)
                   (owner_default_tags: tags_controller)
                   (tags_value: "string list option")

text \<open>
  Modelled from the spec: the classes \<^verbatim>\<open>Tag\<close>, \<^verbatim>\<open>DefaultTag\<close> and \<^verbatim>\<open>ForcedTag\<close>
  are in \<^verbatim>\<open>tags.py\<close>, which is not among the sources; the spec says a tag is a
  value with a name, an optional index and a reference to its controller.
\<close>

datatype tag =
    Tag "string option" "nat option" tags_controller
  | DefaultTag "string option" "nat option" tags_controller
  | ForcedTag "string option" "nat option" tags_controller

text \<open>
  Modelled from the spec: the properties \<^verbatim>\<open>force_tags\<close> and \<^verbatim>\<open>default_tags\<close> of a
  data file are not among the sources; they are the force-tags and default-tags
  controllers of that file, over the settings of its setting table.
\<close>

definition force_tags :: "datafile \<Rightarrow> tags_controller" where
  \<comment> \<open>\<^verbatim>\<open>obj.force_tags\<close>: the force-tags controller whose parent is \<open>obj\<close>\<close>
  "force_tags obj = ForceTagsController (Some obj)"

definition default_tags :: "datafile \<Rightarrow> tags_controller" where
  "default_tags obj = DefaultTagsController obj (setting_table_default_tags obj)"

definition gather_from_data :: "string list option \<Rightarrow> tags_controller \<Rightarrow> tag list" where
  "gather_from_data tags p =
     (case tags of
        None \<Rightarrow> []
      | Some ts \<Rightarrow> map (\<lambda>(index, t). ForcedTag (Some t) (Some index) p) (enumerate 0 ts))"

function recursive_gather_from :: "datafile option \<Rightarrow> tag list \<Rightarrow> tag list" where
  "recursive_gather_from None result = result"
| "recursive_gather_from (Some obj) result =
     recursive_gather_from (parent obj)
       (gather_from_data (setting_table_force_tags obj) (force_tags obj) @ result)"
  by pat_completeness auto
termination
proof (relation "measure (\<lambda>(p, result). size_option size p)")
  show "wf (measure (\<lambda>(p, result). size_option size p))"
    by simp
next
  fix obj :: datafile and result :: "tag list"
  show "((parent obj, gather_from_data (setting_table_force_tags obj) (force_tags obj) @ result),
         (Some obj, result)) \<in> measure (\<lambda>(p, result). size_option size p)"
    by (cases obj) simp
qed

fun iter :: "tags_controller \<Rightarrow> tag list" where
  "iter (ForceTagsController p) = recursive_gather_from p []"
| "iter (DefaultTagsController obj v) =
     (case v of
        None \<Rightarrow> []
      | Some ts \<Rightarrow>
          map (\<lambda>(index, t). DefaultTag (Some t) (Some index) (DefaultTagsController obj v))
            (enumerate 0 ts))"
| "iter (TagsController forced dflt v) =
     (case v of
        None \<Rightarrow> iter forced @ iter dflt
      | Some ts \<Rightarrow>
          if length ts = 0
          then iter forced @ [Tag (Some []) None (TagsController forced dflt v)]
          else iter forced @
               map (\<lambda>(index, t). Tag (Some t) (Some index) (TagsController forced dflt v))
                 (enumerate 0 ts))"

text \<open>
  The chain of data files above an entity, the entity's own file first: what the
  spec calls the hierarchy walked upward.
\<close>

function parent_chain :: "datafile option \<Rightarrow> datafile list" where
  "parent_chain None = []"
| "parent_chain (Some obj) = obj # parent_chain (parent obj)"
  by pat_completeness auto
termination
proof (relation "measure (size_option size)")
  show "wf (measure (size_option size :: datafile option \<Rightarrow> nat))"
    by simp
next
  fix obj :: datafile
  show "(parent obj, Some obj) \<in> measure (size_option size)"
    by (cases obj) simp
qed

section \<open>Variable controller\<close>

text \<open>
  Objects have an identity (\<^verbatim>\<open>is\<close> compares it) and a class. The class body
  defines \<^verbatim>\<open>__eq__\<close> twice; the second definition replaces the first, and it is
  the one modelled. The record's own \<^verbatim>\<open>==\<close> and \<^verbatim>\<open>hash\<close> belong to the parser
  library and are the parameters \<open>var_eq\<close> and \<open>var_hash\<close>.
\<close>

datatype pyclass = NoneType | VariableControllerClass | OtherClass string

datatype 'v pyobject =
    PyNone
  | VariableController nat 'v
  | Instance nat string

fun ident :: "'v pyobject \<Rightarrow> nat option" where
  \<comment> \<open>\<^verbatim>\<open>None\<close> is one object; every other object has its own number\<close>
  "ident PyNone = None"
| "ident (VariableController i v) = Some i"
| "ident (Instance i n) = Some i"

fun class_of :: "'v pyobject \<Rightarrow> pyclass" where
  "class_of PyNone = NoneType"
| "class_of (VariableController i v) = VariableControllerClass"
| "class_of (Instance i n) = OtherClass n"

fun get_var :: "'v pyobject \<Rightarrow> error + 'v" where
  \<comment> \<open>the attribute \<^verbatim>\<open>_var\<close>; an object without it raises AttributeError\<close>
  "get_var (VariableController i v) = Inr v"
| "get_var _ = Inl AttributeError"

definition VariableController_eq ::
  "('v \<Rightarrow> 'v \<Rightarrow> bool) \<Rightarrow> 'v pyobject \<Rightarrow> 'v pyobject \<Rightarrow> error + bool" where
  "VariableController_eq var_eq self other =
     (if ident self = ident other then Inr True
      else if class_of other \<noteq> class_of self then Inr False
      else (case get_var self of
              Inl e \<Rightarrow> Inl e
            | Inr v \<Rightarrow> (case get_var other of
                          Inl e \<Rightarrow> Inl e
                        | Inr w \<Rightarrow> Inr (var_eq v w))))"

definition VariableController_ne ::
  "('v \<Rightarrow> 'v \<Rightarrow> bool) \<Rightarrow> 'v pyobject \<Rightarrow> 'v pyobject \<Rightarrow> error + bool" where
  "VariableController_ne var_eq self other =
     (case VariableController_eq var_eq self other of
        Inl e \<Rightarrow> Inl e
      | Inr b \<Rightarrow> Inr (\<not> b))"

definition VariableController_hash :: "('v \<Rightarrow> int) \<Rightarrow> 'v pyobject \<Rightarrow> error + int" where
  "VariableController_hash var_hash self =
     (case get_var self of Inl e \<Rightarrow> Inl e | Inr v \<Rightarrow> Inr (var_hash v + 1))"

section \<open>Import controllers\<close>

record import_setting =
  imp_type :: string
  imp_name :: string
  imp_args :: "string list"
  imp_alias :: string

text \<open>
  \<open>imported_resource_controller\<close> is \<open>None\<close> while the attribute has never been
  assigned; once assigned it holds what the factory returned, which may be
  Python's \<^verbatim>\<open>None\<close>. \<open>calls\<close> records the calls made on the owner, on its
  factory and on the message bus.
\<close>

record 'r import_controller =
  imp :: import_setting
  is_resource :: bool
  resolved_import :: bool
  imported_resource_controller :: "'r option option"
  calls :: "event list"

definition falsy :: "pyval \<Rightarrow> bool" where
  "falsy v = (v = PNone \<or> v = PStr [] \<or> v = PList [])"

definition publish_edited :: "'r import_controller \<Rightarrow> 'r import_controller" where
  "publish_edited c =
     c\<lparr>calls := calls c @
        [RideImportSettingChanged (imp_name (imp c)) (lower (imp_type (imp c)))]\<rparr>"

definition import_loaded_or_modified :: "'r import_controller \<Rightarrow> 'r import_controller" where
  "import_loaded_or_modified c =
     (let c' = c\<lparr>calls := calls c @ [NotifyImportsModified]\<rparr>
      in if \<not> is_resource c' then c'
         else c'\<lparr>calls := calls c' @ [ResourceImportModified (imp_name (imp c'))]\<rparr>)"

definition import_set_value ::
  "splitter \<Rightarrow> string \<Rightarrow> pyval \<Rightarrow> string \<Rightarrow> 'r import_controller \<Rightarrow> 'r import_controller" where
  \<comment> \<open>\<^verbatim>\<open>_ImportController.set_value(name, args=None, alias='')\<close>\<close>
  "import_set_value sv nm as al c =
     (let c1 = c\<lparr>imp := (imp c)\<lparr>imp_name := nm,
                   imp_args := sv (if falsy as then PList [] else as),
                   imp_alias := al\<rparr>\<rparr>;
          c2 = c1\<lparr>calls := calls c1 @ [MarkDirty]\<rparr>
      in import_loaded_or_modified (publish_edited c2))"

definition get_imported_controller ::
  "(import_setting \<Rightarrow> 'r option) \<Rightarrow> 'r import_controller \<Rightarrow>
     (error + 'r option) \<times> 'r import_controller" where
  \<comment> \<open>\<open>find_with_import\<close> is the owner's factory as it answers at this call\<close>
  "get_imported_controller find_with_import c =
     (let c' = (if \<not> resolved_import c
                then c\<lparr>imported_resource_controller := Some (find_with_import (imp c)),
                       resolved_import := True,
                       calls := calls c @ [FindWithImport (imp_name (imp c))]\<rparr>
                else c)
      in (case imported_resource_controller c' of
            None \<Rightarrow> Inl AttributeError
          | Some r \<Rightarrow> Inr r,
          c'))"

definition unresolve :: "'r import_controller \<Rightarrow> 'r import_controller" where
  "unresolve c = c\<lparr>resolved_import := False\<rparr>"

definition contains_filename :: "'r import_controller \<Rightarrow> string \<Rightarrow> bool" where
  "contains_filename c filename = endswith (imp_name (imp c)) filename"

definition slice_to_minus :: "string \<Rightarrow> nat \<Rightarrow> string" where
  \<comment> \<open>\<^verbatim>\<open>s[:-n]\<close>: for \<open>n = 0\<close> this is \<^verbatim>\<open>s[:0]\<close>, the empty string\<close>
  "slice_to_minus s n = (if n = 0 then [] else take (length s - n) s)"

definition change_name ::
  "splitter \<Rightarrow> string \<Rightarrow> string \<Rightarrow> 'r import_controller \<Rightarrow> 'r import_controller" where
  "change_name sv old_name new_name c =
     (if contains_filename c old_name
      then import_set_value sv
             (slice_to_minus (imp_name (imp c)) (length old_name) @ new_name) PNone [] c
      else c)"

section \<open>The separator rule\<close>

text \<open>
  Modelled from the spec: \<^verbatim>\<open>utils.split_value\<close> is not among the sources. The spec
  says it splits on unescaped pipes, takes a backslash followed by a pipe as a
  literal pipe, trims the whitespace around each token, and gives the empty list
  for an empty value. The controllers pass it a string or the empty list.
\<close>

fun split_unescaped :: "string \<Rightarrow> string \<Rightarrow> string list" where
  "split_unescaped cur [] = [cur]"
| "split_unescaped cur [c] =
     (if c = CHR ''|'' then [cur, []] else [cur @ [c]])"
| "split_unescaped cur (c # d # cs) =
     (if c = CHR ''|'' then cur # split_unescaped [] (d # cs)
      else if c = bslash \<and> d = CHR ''|'' then split_unescaped (cur @ [d]) cs
      else split_unescaped (cur @ [c]) (d # cs))"

definition split_value :: splitter where
  "split_value v =
     (case v of
        PStr s \<Rightarrow> if s = [] then [] else map strip (split_unescaped [] s)
      | _ \<Rightarrow> [])"

section \<open>Metadata controller\<close>

text \<open>
  \<^verbatim>\<open>MetadataController.set_value(name, value)\<close> replaces the inherited method: it
  assigns both fields and marks the owner dirty, whatever was stored.
\<close>

record metadata_controller =
  meta :: setting
  meta_parent_calls :: "event list"

definition Metadata_set_value ::
  "string \<Rightarrow> string \<Rightarrow> metadata_controller \<Rightarrow> metadata_controller" where
  "Metadata_set_value n v c =
     c\<lparr>meta := (meta c)\<lparr>name := PStr n, val := PStr v\<rparr>,
       meta_parent_calls := meta_parent_calls c @ [MarkDirty]\<rparr>"

section \<open>Notions of the specification\<close>

text \<open>
  The parsed form of an input, per class, and the form the record currently
  holds. For Documentation and Template the parsed form is the input itself.
\<close>

fun parsed_form :: "splitter \<Rightarrow> setting_class \<Rightarrow> string \<Rightarrow> pyval list" where
  "parsed_form sv Fixture v = [PStr (fst (Fixture_parse sv v)), PList (snd (Fixture_parse sv v))]"
| "parsed_form sv Timeout v = [PStr (fst (Timeout_parse v)), PStr (snd (Timeout_parse v))]"
| "parsed_form sv Documentation v = [PStr v]"
| "parsed_form sv Template v = [PStr v]"
| "parsed_form sv k v = [PList (split_from_separators sv v)]"

definition stored_form :: "controller \<Rightarrow> pyval list" where
  "stored_form c =
     (case cls c of
        Fixture \<Rightarrow> [name (data c), args (data c)]
      | Timeout \<Rightarrow> [val (data c), message (data c)]
      | _ \<Rightarrow> [val (data c)])"

definition count_dirty :: "controller \<Rightarrow> nat" where
  \<comment> \<open>how many times the owner has been marked dirty\<close>
  "count_dirty c = length (filter (\<lambda>e. e = MarkDirty) (parent_calls c))"

text \<open>The force tags one data file contributes, each with its position.\<close>

definition level_tags :: "datafile \<Rightarrow> tag list" where
  "level_tags obj =
     (case setting_table_force_tags obj of
        None \<Rightarrow> []
      | Some ts \<Rightarrow>
          map (\<lambda>i. ForcedTag (Some (ts ! i)) (Some i) (force_tags obj)) [0 ..< length ts])"

text \<open>The default tags a data file declares, each with its position.\<close>

definition file_default_tags :: "datafile \<Rightarrow> tag list" where
  "file_default_tags obj =
     (case setting_table_default_tags obj of
        None \<Rightarrow> []
      | Some ds \<Rightarrow>
          map (\<lambda>i. DefaultTag (Some (ds ! i)) (Some i) (default_tags obj)) [0 ..< length ds])"

text \<open>
  Escaping newlines in one pass from left to right: CR LF, a lone LF and a lone
  CR each become a backslash and the letter n.
\<close>

definition escaped_newline :: string where
  "escaped_newline = [bslash, CHR ''n'']"

fun escape_newlines :: "string \<Rightarrow> string" where
  "escape_newlines [] = []"
| "escape_newlines [c] = (if c = LF \<or> c = CR then escaped_newline else [c])"
| "escape_newlines (c # d # cs) =
     (if c = CR \<and> d = LF then escaped_newline @ escape_newlines cs
      else if c = LF \<or> c = CR then escaped_newline @ escape_newlines (d # cs)
      else c # escape_newlines (d # cs))"

abbreviation bslashes :: "nat \<Rightarrow> string" where
  "bslashes k \<equiv> replicate k bslash"

abbreviation unescape :: "string \<Rightarrow> string" where
  "unescape \<equiv> unescape_newlines_and_handle_escaped_backslashes"

definition lit_rn :: string where
  "lit_rn = [CHR ''r'', bslash, CHR ''n'']"

definition plain_lit :: "string \<Rightarrow> bool" where
  \<comment> \<open>a fixed text that does not begin with a backslash\<close>
  "plain_lit lit = (lit \<noteq> [] \<and> hd lit \<noteq> bslash)"

text \<open>The controller after a resolution through the factory \<open>f\<close>.\<close>

definition resolved_state ::
  "(import_setting \<Rightarrow> 'r option) \<Rightarrow> 'r import_controller \<Rightarrow> 'r import_controller" where
  "resolved_state f c =
     c\<lparr>imported_resource_controller := Some (f (imp c)), resolved_import := True,
       calls := calls c @ [FindWithImport (imp_name (imp c))]\<rparr>"

section \<open>Example values\<close>

definition doc0 :: controller where
  "doc0 = \<lparr>cls = Documentation,
            data = \<lparr>val = PStr ''a | b'', name = PNone, args = PNone, message = PNone,
                    comment = PNone\<rparr>,
            parent_calls = []\<rparr>"

definition args0 :: controller where
  "args0 = \<lparr>cls = Arguments,
             data = \<lparr>val = PList [''a'', ''b''], name = PNone, args = PNone, message = PNone,
                     comment = PNone\<rparr>,
             parent_calls = []\<rparr>"

definition tmpl0 :: controller where
  "tmpl0 = \<lparr>cls = Template,
             data = \<lparr>val = PStr ''Old'', name = PNone, args = PNone, message = PNone,
                     comment = PNone\<rparr>,
             parent_calls = []\<rparr>"

definition meta0 :: metadata_controller where
  "meta0 = \<lparr>meta = \<lparr>val = PStr ''me'', name = PStr ''author'', args = PNone,
                     message = PNone, comment = PNone\<rparr>,
             meta_parent_calls = []\<rparr>"

definition file1 :: datafile where
  "file1 = DataFile ''File1'' (Some [''f1'']) None None"

definition file2 :: datafile where
  "file2 = DataFile ''File2'' (Some [''f2'']) None (Some file1)"

definition file3 :: datafile where
  "file3 = DataFile ''File3'' (Some [''f3'']) None (Some file2)"

definition file4 :: datafile where
  "file4 = DataFile ''File4'' (Some [''f4'']) (Some [''d1'', ''d2'']) (Some file1)"

record variable =
  var_name :: string
  var_value :: "string list"
  var_comment :: string

definition variable_eq :: "variable \<Rightarrow> variable \<Rightarrow> bool" where
  \<comment> \<open>a record equality on name and value, as the spec describes it\<close>
  "variable_eq a b = (var_name a = var_name b \<and> var_value a = var_value b)"

definition variable_hash :: "variable \<Rightarrow> int" where
  "variable_hash a = int (length (var_name a)) + int (length (var_value a))"

definition var1 :: variable where
  "var1 = \<lparr>var_name = ''${x}'', var_value = [''1''], var_comment = ''first''\<rparr>"

definition var2 :: variable where
  "var2 = \<lparr>var_name = ''${x}'', var_value = [''1''], var_comment = ''second''\<rparr>"

definition res1 :: "string import_controller" where
  "res1 = \<lparr>imp = \<lparr>imp_type = ''Resource'', imp_name = ''lib/res.txt'', imp_args = [],
                   imp_alias = []\<rparr>,
            is_resource = True, resolved_import = False,
            imported_resource_controller = None, calls = []\<rparr>"

definition res0 :: "string import_controller" where
  "res0 = \<lparr>imp = \<lparr>imp_type = ''Resource'', imp_name = ''res.txt'', imp_args = [],
                   imp_alias = []\<rparr>,
            is_resource = True, resolved_import = False,
            imported_resource_controller = None, calls = []\<rparr>"

section \<open>Change detection and write-through\<close>

lemma chars_distinct [simp]:
  "CR \<noteq> LF" "LF \<noteq> CR" "bslash \<noteq> CR" "bslash \<noteq> LF" "CR \<noteq> bslash" "LF \<noteq> bslash"
  "CHR ''n'' \<noteq> CR" "CHR ''n'' \<noteq> LF" "CR \<noteq> CHR ''n''" "LF \<noteq> CHR ''n''"
  "CHR ''r'' \<noteq> CR" "CHR ''r'' \<noteq> LF" "CR \<noteq> CHR ''r''" "LF \<noteq> CHR ''r''"
  "CHR ''n'' \<noteq> bslash" "CHR ''r'' \<noteq> bslash" "bslash \<noteq> CHR ''n''" "bslash \<noteq> CHR ''r''"
  "hash_sign \<noteq> CR" "hash_sign \<noteq> LF" "hash_sign \<noteq> bslash"
  "CR \<noteq> hash_sign" "LF \<noteq> hash_sign" "bslash \<noteq> hash_sign"
  by (simp_all add: CR_def LF_def bslash_def hash_sign_def)

lemma split_value_examples:
  "split_value (PStr ''a|b'') = [''a'', ''b'']"
  "split_value (PStr ''a | b'') = [''a'', ''b'']"
  "split_value (PStr ''a|c'') = [''a'', ''c'']"
  "split_value (PStr ''a | c'') = [''a'', ''c'']"
  by (simp_all add: split_value_def strip_def isspace_def bslash_def)

lemma changed_iff_forms: "changed sv c v \<longleftrightarrow> parsed_form sv (cls c) v \<noteq> stored_form c"
  by (cases "cls c") (auto simp: changed_def stored_form_def split: prod.splits)

lemma cls_set' [simp]: "cls (set' sv v c) = cls c"
  by (cases "cls c")
     (simp_all add: set'_def set_split_def base_set_def notify_settings_changed_def
        notify_steps_changed_def split: prod.splits)

lemma cls_mark_dirty [simp]: "cls (mark_dirty c) = cls c"
  by (simp add: mark_dirty_def)

lemma stored_form_mark_dirty [simp]: "stored_form (mark_dirty c) = stored_form c"
  by (simp add: mark_dirty_def stored_form_def split: setting_class.splits)

lemma last_mark_dirty [simp]: "last (parent_calls (mark_dirty c)) = MarkDirty"
  by (simp add: mark_dirty_def)

lemma stored_form_set': "stored_form (set' sv v c) = parsed_form sv (cls c) v"
  by (cases "cls c")
     (simp_all add: stored_form_def set'_def set_split_def base_set_def
        notify_settings_changed_def notify_steps_changed_def split: prod.splits)

lemma length_calls_set': "length (parent_calls c) \<le> length (parent_calls (set' sv v c))"
  by (cases "cls c")
     (simp_all add: set'_def set_split_def base_set_def
        notify_settings_changed_def notify_steps_changed_def split: prod.splits)

lemma set_value_changes: "changed sv c v \<Longrightarrow> set_value sv v c \<noteq> c"
proof
  assume ch: "changed sv c v" and eq: "set_value sv v c = c"
  from ch eq have "mark_dirty (set' sv v c) = c"
    by (simp add: set_value_def)
  then have "length (parent_calls (mark_dirty (set' sv v c))) = length (parent_calls c)"
    by simp
  with length_calls_set' [of c sv v] show False
    by (simp add: mark_dirty_def)
qed

lemma count_dirty_set' [simp]: "count_dirty (set' sv v c) = count_dirty c"
  by (cases "cls c")
     (simp_all add: count_dirty_def set'_def set_split_def base_set_def
        notify_settings_changed_def notify_steps_changed_def split: prod.splits)

lemma count_dirty_mark_dirty [simp]: "count_dirty (mark_dirty c) = Suc (count_dirty c)"
  by (simp add: count_dirty_def mark_dirty_def)

text \<open>
  Claim C1, as amended. For every controller that inherits \<^verbatim>\<open>set_value(v)\<close>
  (Documentation, Fixture, Tags and its two subclasses, Timeout, Template,
  Arguments, ReturnValue), \<^verbatim>\<open>set_value(v)\<close> leaves the controller and its owner
  untouched exactly when the parsed form of \<open>v\<close> equals the form the record holds;
  otherwise it writes through the class's \<^verbatim>\<open>_set\<close>, after which the record holds
  the parsed form, and marks the owner dirty as its last call. The parsed form is
  the split token sequence for Tags, Arguments and ReturnValue, name and arguments
  for Fixture, the stripped value and message for Timeout, and the input string
  itself for Documentation and Template.
\<close>

theorem set_value_noop_iff_parsed_equal:
  "(set_value sv v c = c \<longleftrightarrow> parsed_form sv (cls c) v = stored_form c) \<and>
   (parsed_form sv (cls c) v \<noteq> stored_form c \<longrightarrow>
      set_value sv v c = mark_dirty (set' sv v c) \<and>
      stored_form (set_value sv v c) = parsed_form sv (cls c) v \<and>
      last (parent_calls (set_value sv v c)) = MarkDirty)"
  using set_value_changes [of sv c v]
  by (auto simp: changed_iff_forms set_value_def stored_form_set')

theorem set_value_noop_iff_parsed_equal_witness:
  "parsed_form split_value (cls args0) ''a | b'' = stored_form args0 \<and>
   set_value split_value ''a | b'' args0 = args0 \<and>
   parsed_form split_value (cls args0) ''a | c'' \<noteq> stored_form args0 \<and>
   set_value split_value ''a | c'' args0 = mark_dirty (set' split_value ''a | c'' args0) \<and>
   parent_calls (set_value split_value ''a | c'' args0) = [NotifySettingsChanged, MarkDirty]"
proof -
  have p1: "parsed_form split_value (cls args0) ''a | b'' = stored_form args0"
    by (simp add: args0_def stored_form_def split_from_separators_def split_value_examples)
  have p2: "parsed_form split_value (cls args0) ''a | c'' \<noteq> stored_form args0"
    by (simp add: args0_def stored_form_def split_from_separators_def split_value_examples)
  have c: "parent_calls (mark_dirty (set' split_value ''a | c'' args0)) =
             [NotifySettingsChanged, MarkDirty]"
    by (simp add: args0_def mark_dirty_def set'_def set_split_def notify_settings_changed_def)
  from p1 p2 c set_value_noop_iff_parsed_equal [of split_value "''a | b''" args0]
    set_value_noop_iff_parsed_equal [of split_value "''a | c''" args0]
  show ?thesis by simp
qed

text \<open>
  The claim as stated fails on the base class: a Documentation controller holding
  \<^verbatim>\<open>a | b\<close> and given \<^verbatim>\<open>a|b\<close>, which splits into the same tokens, writes the new
  string and marks its owner dirty.
\<close>

theorem raw_comparison_counterexample:
  "split_from_separators split_value ''a|b'' = split_from_separators split_value ''a | b'' \<and>
   val (data doc0) = PStr ''a | b'' \<and>
   set_value split_value ''a|b'' doc0 \<noteq> doc0 \<and>
   parent_calls (set_value split_value ''a|b'' doc0) = [MarkDirty] \<and>
   val (data (set_value split_value ''a|b'' doc0)) = PStr ''a|b''"
  by (simp add: split_from_separators_def split_value_examples doc0_def set_value_def
        changed_def set'_def base_set_def mark_dirty_def)

text \<open>
  Claim C7, as amended. For every controller that inherits \<^verbatim>\<open>set_value(v)\<close>, in
  any state: after \<^verbatim>\<open>set_value(v)\<close> the record holds the parsed form of \<open>v\<close>, so a
  second call with any input of the same parsed form changes nothing, and over the
  two calls the owner is marked dirty once when the first value differed from what
  was stored and not at all otherwise.
\<close>

theorem set_value_twice:
  assumes "parsed_form sv (cls c) v' = parsed_form sv (cls c) v"
  shows "set_value sv v' (set_value sv v c) = set_value sv v c \<and>
         stored_form (set_value sv v c) = parsed_form sv (cls c) v \<and>
         count_dirty (set_value sv v' (set_value sv v c)) =
           count_dirty c + (if parsed_form sv (cls c) v = stored_form c then 0 else 1)"
proof -
  have st: "stored_form (set_value sv v c) = parsed_form sv (cls c) v"
    by (simp add: set_value_def changed_iff_forms stored_form_set')
  have k: "cls (set_value sv v c) = cls c"
    by (simp add: set_value_def)
  have "\<not> changed sv (set_value sv v c) v'"
    using st k assms by (simp add: changed_iff_forms)
  then have noop: "set_value sv v' (set_value sv v c) = set_value sv v c"
    by (simp add: set_value_def [of sv v'])
  have "count_dirty (set_value sv v c) =
          count_dirty c + (if parsed_form sv (cls c) v = stored_form c then 0 else 1)"
    by (simp add: set_value_def changed_iff_forms)
  with noop st show ?thesis by simp
qed

theorem set_value_twice_witness:
  "parsed_form split_value (cls args0) ''a|c'' = parsed_form split_value (cls args0) ''a | c'' \<and>
   set_value split_value ''a|c'' (set_value split_value ''a | c'' args0) =
     set_value split_value ''a | c'' args0 \<and>
   count_dirty (set_value split_value ''a|c'' (set_value split_value ''a | c'' args0)) = 1"
proof -
  have h: "parsed_form split_value (cls args0) ''a|c'' =
           parsed_form split_value (cls args0) ''a | c''"
    by (simp add: args0_def split_from_separators_def split_value_examples)
  have p2: "parsed_form split_value (cls args0) ''a | c'' \<noteq> stored_form args0"
    by (simp add: args0_def stored_form_def split_from_separators_def split_value_examples)
  have z: "count_dirty args0 = 0"
    by (simp add: count_dirty_def args0_def)
  note r = set_value_twice [OF h]
  from r have "set_value split_value ''a|c'' (set_value split_value ''a | c'' args0) =
                 set_value split_value ''a | c'' args0"
    by (rule conjunct1)
  moreover from r [THEN conjunct2, THEN conjunct2] p2 z
  have "count_dirty (set_value split_value ''a|c'' (set_value split_value ''a | c'' args0)) = 1"
    by simp
  ultimately show ?thesis
    using h by blast
qed

text \<open>
  The claim as stated fails on MetadataController, whose own \<^verbatim>\<open>set_value\<close> has no
  change test: two calls with the name and value already stored leave the record
  as it was and mark the owner dirty twice.
\<close>

theorem metadata_set_value_counterexample:
  "meta (Metadata_set_value ''author'' ''me'' (Metadata_set_value ''author'' ''me'' meta0)) =
     meta meta0 \<and>
   meta_parent_calls
     (Metadata_set_value ''author'' ''me'' (Metadata_set_value ''author'' ''me'' meta0)) =
     [MarkDirty, MarkDirty]"
  by (simp add: Metadata_set_value_def meta0_def)

section \<open>Template controller\<close>

text \<open>
  Claim C4, as amended. For every TemplateController: a \<^verbatim>\<open>set_value\<close> that changes
  the value stores it, notifies the owner that its steps changed and then marks it
  dirty; \<^verbatim>\<open>clear\<close> resets the record, removes the comment, marks the owner dirty
  and then notifies it that its steps changed; \<^verbatim>\<open>replace_keyword\<close> stores the new
  name and marks the owner dirty, and makes no other call.
\<close>

theorem template_notifications:
  assumes "cls c = Template"
  shows "(PStr v \<noteq> val (data c) \<longrightarrow>
            set_value sv v c = mark_dirty (notify_steps_changed (base_set v c)) \<and>
            parent_calls (set_value sv v c) = parent_calls c @ [NotifyStepsChanged, MarkDirty] \<and>
            val (data (set_value sv v c)) = PStr v) \<and>
         clear reset c = notify_steps_changed (base_clear reset c) \<and>
         parent_calls (clear reset c) = parent_calls c @ [MarkDirty, NotifyStepsChanged] \<and>
         data (clear reset c) = (reset (data c))\<lparr>comment := PNone\<rparr> \<and>
         replace_keyword new_name c =
           Inr (c\<lparr>data := (data c)\<lparr>val := PStr new_name\<rparr>,
                  parent_calls := parent_calls c @ [MarkDirty]\<rparr>)"
  using assms
  by (simp add: set_value_def changed_def set'_def clear_def replace_keyword_def
        base_clear_def base_set_def mark_dirty_def notify_steps_changed_def)

theorem template_notifications_witness:
  "cls tmpl0 = Template \<and> PStr ''New'' \<noteq> val (data tmpl0) \<and>
   parent_calls (set_value split_value ''New'' tmpl0) = [NotifyStepsChanged, MarkDirty] \<and>
   parent_calls (clear (\<lambda>d. d\<lparr>val := PNone\<rparr>) tmpl0) = [MarkDirty, NotifyStepsChanged] \<and>
   replace_keyword ''New'' tmpl0 =
     Inr (tmpl0\<lparr>data := (data tmpl0)\<lparr>val := PStr ''New''\<rparr>, parent_calls := [MarkDirty]\<rparr>)"
proof -
  have h: "cls tmpl0 = Template"
    by (simp add: tmpl0_def)
  have d: "PStr ''New'' \<noteq> val (data tmpl0)"
    by (simp add: tmpl0_def)
  have e: "parent_calls tmpl0 = []"
    by (simp add: tmpl0_def)
  note r = template_notifications
    [OF h, of "''New''" split_value "\<lambda>d. d\<lparr>val := PNone\<rparr>" "''New''"]
  from r d have 1: "parent_calls (set_value split_value ''New'' tmpl0) =
                      parent_calls tmpl0 @ [NotifyStepsChanged, MarkDirty]"
    by blast
  from r have 2: "parent_calls (clear (\<lambda>d. d\<lparr>val := PNone\<rparr>) tmpl0) =
                    parent_calls tmpl0 @ [MarkDirty, NotifyStepsChanged]"
    by blast
  from r have 3: "replace_keyword ''New'' tmpl0 =
                    Inr (tmpl0\<lparr>data := (data tmpl0)\<lparr>val := PStr ''New''\<rparr>,
                           parent_calls := parent_calls tmpl0 @ [MarkDirty]\<rparr>)"
    by blast
  from 1 2 3 h d e show ?thesis
    by simp
qed

text \<open>
  The claim as stated fails on \<^verbatim>\<open>replace_keyword\<close>: the owner of a template
  controller receives the dirty mark and no steps-changed notification.
\<close>

theorem replace_keyword_counterexample:
  "replace_keyword ''New'' tmpl0 =
     Inr (tmpl0\<lparr>data := (data tmpl0)\<lparr>val := PStr ''New''\<rparr>, parent_calls := [MarkDirty]\<rparr>) \<and>
   NotifyStepsChanged \<notin> set [MarkDirty]"
  by (simp add: replace_keyword_def tmpl0_def mark_dirty_def)

section \<open>Tag iteration\<close>

lemma enumerate_as_indices:
  "map (\<lambda>(index, t). f t index) (enumerate 0 ts) = map (\<lambda>i. f (ts ! i) i) [0 ..< length ts]"
  by (rule nth_equalityI) (simp_all add: nth_enumerate_eq)

lemma gather_from_data_level:
  "gather_from_data (setting_table_force_tags obj) (force_tags obj) = level_tags obj"
  unfolding gather_from_data_def level_tags_def
  by (simp add: enumerate_as_indices [of "\<lambda>t index. ForcedTag (Some t) (Some index) (force_tags obj)"]
        split: option.splits)

lemma recursive_gather_from_chain:
  "recursive_gather_from p result = concat (map level_tags (rev (parent_chain p))) @ result"
  by (induction p result rule: recursive_gather_from.induct)
     (simp_all add: gather_from_data_level)

text \<open>
  Claim C2. Iterating a ForceTagsController whose parent is \<open>p\<close> yields the force
  tags of every data file in the chain above it, the topmost file's first and the
  owning file's own last; each tag is a ForcedTag with its position, carrying the
  force-tags controller of the data file it comes from; a file whose force-tag
  value is unset contributes nothing.
\<close>

theorem force_tags_outermost_first:
  "iter (ForceTagsController p) = concat (map level_tags (rev (parent_chain p))) \<and>
   level_tags (DataFile src None dt up) = [] \<and>
   level_tags (DataFile src (Some ts) dt up) =
     map (\<lambda>i. ForcedTag (Some (ts ! i)) (Some i)
                 (ForceTagsController (Some (DataFile src (Some ts) dt up))))
       [0 ..< length ts]"
  by (simp add: recursive_gather_from_chain level_tags_def force_tags_def)

lemma force_tags_three_files:
  "iter (force_tags file3) =
     [ForcedTag (Some ''f1'') (Some 0) (force_tags file1),
      ForcedTag (Some ''f2'') (Some 0) (force_tags file2),
      ForcedTag (Some ''f3'') (Some 0) (force_tags file3)]"
  by (simp add: force_tags_def file3_def file2_def file1_def gather_from_data_def enumerate_eq_zip)

lemma iter_default_tags: "iter (default_tags obj) = file_default_tags obj"
proof (cases "setting_table_default_tags obj")
  case None
  then show ?thesis by (simp add: default_tags_def file_default_tags_def)
next
  case (Some ds)
  then show ?thesis
    using enumerate_as_indices
      [of "\<lambda>t index. DefaultTag (Some t) (Some index) (DefaultTagsController obj (Some ds))" ds]
    by (simp add: default_tags_def file_default_tags_def)
qed

lemma iter_force_tags: "iter (force_tags obj) = concat (map level_tags (rev (parent_chain (Some obj))))"
  by (simp add: force_tags_def recursive_gather_from_chain)

lemma iter_tags_controller:
  "iter (TagsController forced dflt v) =
     iter forced @
     (case v of
        None \<Rightarrow> iter dflt
      | Some ts \<Rightarrow>
          if ts = [] then [Tag (Some []) None (TagsController forced dflt v)]
          else map (\<lambda>i. Tag (Some (ts ! i)) (Some i) (TagsController forced dflt v))
                 [0 ..< length ts])"
proof (cases v)
  case None
  then show ?thesis by simp
next
  case (Some ts)
  then show ?thesis
    using enumerate_as_indices
      [of "\<lambda>t index. Tag (Some t) (Some index) (TagsController forced dflt (Some ts))" ts]
    by simp
qed

text \<open>
  Claim C3. Iterating a TagsController yields what its owner's \<^verbatim>\<open>force_tags\<close>
  yields, followed by: what the owner's \<^verbatim>\<open>default_tags\<close> yields when the local
  value is \<^verbatim>\<open>None\<close>; one Tag with the empty name and no index when the local value
  is the empty list; otherwise the local names in order, each a Tag carrying its
  position and this controller. For an owner in the data file \<open>obj\<close> the forced
  tags are the force tags of the files above and of \<open>obj\<close>, topmost first, and the
  default tags are the names \<open>obj\<close> declares as default tags, each a DefaultTag
  carrying its position and the file's default-tags controller, none when the
  file declares none.
\<close>

theorem tags_iteration:
  "iter (TagsController forced dflt v) =
     iter forced @
     (case v of
        None \<Rightarrow> iter dflt
      | Some ts \<Rightarrow>
          if ts = [] then [Tag (Some []) None (TagsController forced dflt v)]
          else map (\<lambda>i. Tag (Some (ts ! i)) (Some i) (TagsController forced dflt v))
                 [0 ..< length ts]) \<and>
   iter (TagsController (force_tags obj) (default_tags obj) None) =
     concat (map level_tags (rev (parent_chain (Some obj)))) @ file_default_tags obj \<and>
   iter (TagsController (force_tags obj) (default_tags obj) (Some [])) =
     concat (map level_tags (rev (parent_chain (Some obj)))) @
     [Tag (Some []) None (TagsController (force_tags obj) (default_tags obj) (Some []))] \<and>
   iter (TagsController (force_tags obj) (default_tags obj) (Some (t # ts))) =
     concat (map level_tags (rev (parent_chain (Some obj)))) @
     map (\<lambda>i. Tag (Some ((t # ts) ! i)) (Some i)
                 (TagsController (force_tags obj) (default_tags obj) (Some (t # ts))))
       [0 ..< Suc (length ts)] \<and>
   file_default_tags (DataFile src ft None up) = [] \<and>
   file_default_tags (DataFile src ft (Some ds) up) =
     map (\<lambda>i. DefaultTag (Some (ds ! i)) (Some i)
                 (DefaultTagsController (DataFile src ft (Some ds) up) (Some ds)))
       [0 ..< length ds]"
proof -
  let ?F = "concat (map level_tags (rev (parent_chain (Some obj))))"
  have a: "iter (TagsController (force_tags obj) (default_tags obj) None) =
             ?F @ file_default_tags obj"
    by (subst iter_tags_controller) (simp add: iter_force_tags iter_default_tags)
  have b: "iter (TagsController (force_tags obj) (default_tags obj) (Some [])) =
             ?F @ [Tag (Some []) None (TagsController (force_tags obj) (default_tags obj) (Some []))]"
    by (subst iter_tags_controller) (simp add: iter_force_tags)
  have c: "iter (TagsController (force_tags obj) (default_tags obj) (Some (t # ts))) =
             ?F @ map (\<lambda>i. Tag (Some ((t # ts) ! i)) (Some i)
                            (TagsController (force_tags obj) (default_tags obj) (Some (t # ts))))
                    [0 ..< Suc (length ts)]"
    by (subst iter_tags_controller) (simp add: iter_force_tags)
  have d: "file_default_tags (DataFile src ft None up) = []"
    by (simp add: file_default_tags_def)
  have e: "file_default_tags (DataFile src ft (Some ds) up) =
             map (\<lambda>i. DefaultTag (Some (ds ! i)) (Some i)
                         (DefaultTagsController (DataFile src ft (Some ds) up) (Some ds)))
               [0 ..< length ds]"
    by (simp add: file_default_tags_def default_tags_def)
  from iter_tags_controller [of forced dflt v] a b c d e show ?thesis
    by blast
qed

theorem tags_iteration_witness:
  "iter (TagsController (force_tags file4) (default_tags file4) None) =
     [ForcedTag (Some ''f1'') (Some 0) (force_tags file1),
      ForcedTag (Some ''f4'') (Some 0) (force_tags file4),
      DefaultTag (Some ''d1'') (Some 0) (default_tags file4),
      DefaultTag (Some ''d2'') (Some 1) (default_tags file4)] \<and>
   iter (TagsController (force_tags file4) (default_tags file4) (Some [])) =
     [ForcedTag (Some ''f1'') (Some 0) (force_tags file1),
      ForcedTag (Some ''f4'') (Some 0) (force_tags file4),
      Tag (Some []) None (TagsController (force_tags file4) (default_tags file4) (Some []))] \<and>
   iter (TagsController (force_tags file4) (default_tags file4) (Some [''t1'', ''t2''])) =
     [ForcedTag (Some ''f1'') (Some 0) (force_tags file1),
      ForcedTag (Some ''f4'') (Some 0) (force_tags file4),
      Tag (Some ''t1'') (Some 0)
        (TagsController (force_tags file4) (default_tags file4) (Some [''t1'', ''t2''])),
      Tag (Some ''t2'') (Some 1)
        (TagsController (force_tags file4) (default_tags file4) (Some [''t1'', ''t2'']))]"
proof -
  have l: "concat (map level_tags (rev (parent_chain (Some file4)))) =
             [ForcedTag (Some ''f1'') (Some 0) (force_tags file1),
              ForcedTag (Some ''f4'') (Some 0) (force_tags file4)]"
    by (simp add: file4_def file1_def level_tags_def)
  have d: "file_default_tags file4 =
             [DefaultTag (Some ''d1'') (Some 0) (default_tags file4),
              DefaultTag (Some ''d2'') (Some 1) (default_tags file4)]"
    by (simp add: file4_def file_default_tags_def upt_rec)
  note r = tags_iteration [of "force_tags file4" "default_tags file4" None file4 "''t1''" "[''t2'']"]
  from r have 1: "iter (TagsController (force_tags file4) (default_tags file4) None) =
      concat (map level_tags (rev (parent_chain (Some file4)))) @ file_default_tags file4"
    by blast
  from r have 2: "iter (TagsController (force_tags file4) (default_tags file4) (Some [])) =
     concat (map level_tags (rev (parent_chain (Some file4)))) @
     [Tag (Some []) None (TagsController (force_tags file4) (default_tags file4) (Some []))]"
    by blast
  from r have 3: "iter (TagsController (force_tags file4) (default_tags file4) (Some [''t1'', ''t2''])) =
     concat (map level_tags (rev (parent_chain (Some file4)))) @
     map (\<lambda>i. Tag (Some ([''t1'', ''t2''] ! i)) (Some i)
                 (TagsController (force_tags file4) (default_tags file4) (Some [''t1'', ''t2''])))
       [0 ..< Suc (length [''t2''])]"
    by blast
  from 1 2 3 show ?thesis
    unfolding l d by (simp add: upt_rec)
qed

section \<open>Variable controller equality\<close>

text \<open>
  Claim C9. Two VariableControllers are equal exactly when they are the same
  object or their records compare equal; comparing with \<^verbatim>\<open>None\<close> or with another
  object of a different class returns False and raises nothing; and, the record's
  hash agreeing with the record's equality, controllers with equal records have
  equal hashes, each one more than its record's.
\<close>

theorem variable_controller_equality:
  assumes "\<forall>a b. var_eq a b \<longrightarrow> var_hash a = var_hash b"
  shows "VariableController_eq var_eq (VariableController i v) (VariableController j w) =
           Inr (i = j \<or> var_eq v w) \<and>
         VariableController_eq var_eq (VariableController i v) PyNone = Inr False \<and>
         (i \<noteq> j \<longrightarrow>
            VariableController_eq var_eq (VariableController i v) (Instance j n) = Inr False) \<and>
         VariableController_ne var_eq (VariableController i v) PyNone = Inr True \<and>
         (var_eq v w \<longrightarrow>
            VariableController_hash var_hash (VariableController i v) =
            VariableController_hash var_hash (VariableController j w)) \<and>
         VariableController_hash var_hash (VariableController i v) = Inr (var_hash v + 1)"
  using assms
  by (auto simp: VariableController_eq_def VariableController_ne_def VariableController_hash_def)

theorem variable_controller_equality_witness:
  "variable_eq var1 var2 \<and>
   VariableController_eq variable_eq (VariableController 1 var1) (VariableController 2 var2) =
     Inr True \<and>
   VariableController_eq variable_eq (VariableController 1 var1) (Instance 2 ''TestCase'') =
     Inr False \<and>
   VariableController_hash variable_hash (VariableController 1 var1) =
     VariableController_hash variable_hash (VariableController 2 var2)"
proof -
  have h: "\<forall>a b. variable_eq a b \<longrightarrow> variable_hash a = variable_hash b"
    by (simp add: variable_eq_def variable_hash_def)
  have e: "variable_eq var1 var2"
    by (simp add: variable_eq_def var1_def var2_def)
  have d: "(1::nat) \<noteq> 2"
    by simp
  from variable_controller_equality [OF h, of 1 var1 2 var2 "''TestCase''"] e d
  show ?thesis by simp
qed

section \<open>Resource imports\<close>

text \<open>
  Claim C10. On a ResourceImportController not yet resolved, the first
  \<^verbatim>\<open>get_imported_controller\<close> asks the owner's factory once and keeps what it
  answered, a null answer included; every later call, however many and whatever
  the factory would answer by then, returns the kept answer and asks nothing;
  after \<^verbatim>\<open>unresolve\<close> the next call asks the factory again and returns the new
  answer.
\<close>

theorem resolution_is_cached:
  assumes "\<not> resolved_import c"
  shows "get_imported_controller f c = (Inr (f (imp c)), resolved_state f c) \<and>
         get_imported_controller g (resolved_state f c) = (Inr (f (imp c)), resolved_state f c) \<and>
         ((\<lambda>s. snd (get_imported_controller g s)) ^^ n) (resolved_state f c) = resolved_state f c \<and>
         \<not> resolved_import (unresolve (resolved_state f c)) \<and>
         get_imported_controller g (unresolve (resolved_state f c)) =
           (Inr (g (imp c)), resolved_state g (unresolve (resolved_state f c))) \<and>
         calls (resolved_state g (unresolve (resolved_state f c))) =
           calls c @ [FindWithImport (imp_name (imp c)), FindWithImport (imp_name (imp c))]"
proof -
  have a: "get_imported_controller f c = (Inr (f (imp c)), resolved_state f c)"
    using assms by (simp add: get_imported_controller_def resolved_state_def)
  have b: "get_imported_controller g (resolved_state f c) = (Inr (f (imp c)), resolved_state f c)"
    for g
    by (simp add: get_imported_controller_def resolved_state_def)
  have r: "((\<lambda>s. snd (get_imported_controller g s)) ^^ n) (resolved_state f c) = resolved_state f c"
    by (induction n) (simp_all add: b)
  have u: "\<not> resolved_import (unresolve (resolved_state f c))"
    by (simp add: unresolve_def)
  have d: "get_imported_controller g (unresolve (resolved_state f c)) =
             (Inr (g (imp c)), resolved_state g (unresolve (resolved_state f c)))"
    by (simp add: get_imported_controller_def resolved_state_def unresolve_def)
  have e: "calls (resolved_state g (unresolve (resolved_state f c))) =
             calls c @ [FindWithImport (imp_name (imp c)), FindWithImport (imp_name (imp c))]"
    by (simp add: resolved_state_def unresolve_def)
  from a b r u d e show ?thesis by blast
qed

theorem resolution_is_cached_witness:
  "\<not> resolved_import res0 \<and>
   get_imported_controller (\<lambda>i. None) res0 = (Inr None, resolved_state (\<lambda>i. None) res0) \<and>
   get_imported_controller (\<lambda>i. Some ''res.txt'') (resolved_state (\<lambda>i. None) res0) =
     (Inr None, resolved_state (\<lambda>i. None) res0) \<and>
   calls (resolved_state (\<lambda>i. None) res0) = [FindWithImport ''res.txt'']"
proof -
  have h: "\<not> resolved_import res0"
    by (simp add: res0_def)
  have c: "calls (resolved_state (\<lambda>i. None) res0) = [FindWithImport ''res.txt'']"
    by (simp add: res0_def resolved_state_def)
  from resolution_is_cached [OF h, of "\<lambda>i. None" "\<lambda>i. Some ''res.txt''"] h c
  show ?thesis by blast
qed

text \<open>
  With the empty string for \<open>old_name\<close>, which is not a file name, the slice
  \<^verbatim>\<open>name[:-0]\<close> is empty and the name becomes \<open>new_name\<close>.
\<close>

lemma change_name_empty:
  "imp_name (imp (change_name sv [] new_name c)) = new_name"
  by (simp add: change_name_def contains_filename_def endswith_def slice_to_minus_def
        import_set_value_def import_loaded_or_modified_def publish_edited_def Let_def)

lemma endswith_append: "endswith (pre @ old_name) old_name"
  by (simp add: endswith_def)

lemma slice_suffix: "old_name \<noteq> [] \<Longrightarrow> slice_to_minus (pre @ old_name) (length old_name) = pre"
  by (simp add: slice_to_minus_def)

lemma length_calls_import_set_value:
  "length (calls c) < length (calls (import_set_value sv nm as al c))"
  by (simp add: import_set_value_def import_loaded_or_modified_def publish_edited_def Let_def)

lemma change_name_noop_iff:
  "change_name sv old_name new_name c = c \<longleftrightarrow> \<not> endswith (imp_name (imp c)) old_name"
proof (cases "endswith (imp_name (imp c)) old_name")
  case True
  have "import_set_value sv nm PNone [] c \<noteq> c" for nm
    using length_calls_import_set_value [of c sv nm PNone "[]"] by auto
  with True show ?thesis
    by (simp add: change_name_def contains_filename_def)
next
  case False
  then show ?thesis
    by (simp add: change_name_def contains_filename_def)
qed

text \<open>
  Claim C8. \<^verbatim>\<open>change_name(old_name, new_name)\<close> leaves the import as it is
  exactly when its name does not end with \<open>old_name\<close>. When the name ends with the
  file name \<open>old_name\<close>, a non-empty string, the name becomes what stood before \<open>old_name\<close> followed by
  \<open>new_name\<close>, written through \<^verbatim>\<open>set_value\<close>: the owner is marked dirty, the change
  is published, and the owner is told that its imports, and this resource import,
  were modified.
\<close>

theorem change_name_rewrites_suffix:
  "(change_name sv old_name new_name c = c \<longleftrightarrow> \<not> endswith (imp_name (imp c)) old_name) \<and>
   (old_name \<noteq> [] \<and> imp_name (imp c) = pre @ old_name \<longrightarrow>
      change_name sv old_name new_name c = import_set_value sv (pre @ new_name) PNone [] c \<and>
      imp_name (imp (change_name sv old_name new_name c)) = pre @ new_name \<and>
      calls (change_name sv old_name new_name c) =
        calls c @
        [MarkDirty, RideImportSettingChanged (pre @ new_name) (lower (imp_type (imp c))),
         NotifyImportsModified] @
        (if is_resource c then [ResourceImportModified (pre @ new_name)] else []))"
proof -
  have "change_name sv old_name new_name c = import_set_value sv (pre @ new_name) PNone [] c"
    if "old_name \<noteq> []" "imp_name (imp c) = pre @ old_name"
    using that by (simp add: change_name_def contains_filename_def endswith_append slice_suffix)
  moreover have "imp_name (imp (import_set_value sv nm PNone [] c)) = nm" for nm
    by (simp add: import_set_value_def import_loaded_or_modified_def publish_edited_def Let_def)
  moreover have "calls (import_set_value sv nm PNone [] c) =
        calls c @ [MarkDirty, RideImportSettingChanged nm (lower (imp_type (imp c))),
         NotifyImportsModified] @ (if is_resource c then [ResourceImportModified nm] else [])" for nm
    by (simp add: import_set_value_def import_loaded_or_modified_def publish_edited_def Let_def)
  ultimately show ?thesis
    using change_name_noop_iff [of sv old_name new_name c] by simp
qed

theorem change_name_rewrites_suffix_witness:
  "imp_name (imp res1) = ''lib/'' @ ''res.txt'' \<and>
   imp_name (imp (change_name split_value ''res.txt'' ''common.txt'' res1)) = ''lib/common.txt'' \<and>
   calls (change_name split_value ''res.txt'' ''common.txt'' res1) =
     [MarkDirty, RideImportSettingChanged ''lib/common.txt'' ''resource'',
      NotifyImportsModified, ResourceImportModified ''lib/common.txt''] \<and>
   \<not> endswith (imp_name (imp res1)) ''other.txt'' \<and>
   change_name split_value ''other.txt'' ''common.txt'' res1 = res1"
proof -
  have n: "imp_name (imp res1) = ''lib/'' @ ''res.txt''"
    by (simp add: res1_def)
  have ne: "''res.txt'' \<noteq> []"
    by simp
  have e: "\<not> endswith (imp_name (imp res1)) ''other.txt''"
    by (simp add: res1_def endswith_def)
  have "lower ''Resource'' = ''resource''"
    by code_simp
  then have l: "lower (imp_type (imp res1)) = ''resource''"
    by (simp add: res1_def)
  have c: "calls res1 = []" and r: "is_resource res1"
    by (simp_all add: res1_def)
  note t1 = change_name_rewrites_suffix
    [of split_value "''res.txt''" "''common.txt''" res1 "''lib/''", THEN conjunct2]
  note t2 = change_name_rewrites_suffix
    [of split_value "''other.txt''" "''common.txt''" res1, THEN conjunct1]
  from t1 n ne have
    1: "imp_name (imp (change_name split_value ''res.txt'' ''common.txt'' res1)) =
          ''lib/'' @ ''common.txt''"
    and 2: "calls (change_name split_value ''res.txt'' ''common.txt'' res1) =
          calls res1 @
          [MarkDirty,
           RideImportSettingChanged (''lib/'' @ ''common.txt'') (lower (imp_type (imp res1))),
           NotifyImportsModified] @
          (if is_resource res1 then [ResourceImportModified (''lib/'' @ ''common.txt'')] else [])"
    by blast+
  from t2 e have 3: "change_name split_value ''other.txt'' ''common.txt'' res1 = res1"
    by blast
  from 1 2 3 n e show ?thesis
    by (simp add: l c r)
qed

section \<open>Documentation: writing the editable value\<close>

lemma replace_Nil: "old \<noteq> [] \<Longrightarrow> replace old new [] = []"
  by (subst replace.simps) (simp add: startswith_def)

lemma replace_single:
  "replace [x] new s = concat (map (\<lambda>c. if c = x then new else [c]) s)"
proof (induction s)
  case Nil
  show ?case by (simp add: replace_Nil)
next
  case (Cons c cs)
  show ?case
    by (subst replace.simps) (simp add: startswith_def Cons.IH)
qed

lemma replace_pair_one: "replace [x, y] new [c] = [c]"
  by (subst replace.simps) (simp add: startswith_def replace_Nil)

lemma replace_pair_Cons:
  "replace [x, y] new (c # d # cs) =
     (if c = x \<and> d = y then new @ replace [x, y] new cs else c # replace [x, y] new (d # cs))"
  by (subst replace.simps) (auto simp: startswith_def)

lemma replace_LF_then_CR:
  "replace [CR] escaped_newline (replace [LF] escaped_newline s) =
     concat (map (\<lambda>c. if c = LF \<or> c = CR then escaped_newline else [c]) s)"
  unfolding replace_single
  by (induction s) (simp_all add: escaped_newline_def)

lemma escaped_newline_kept:
  "concat (map (\<lambda>c. if c = LF \<or> c = CR then escaped_newline else [c]) escaped_newline) =
     escaped_newline"
  by (simp add: escaped_newline_def)

lemma three_replaces:
  "replace [CR] escaped_newline
     (replace [LF] escaped_newline (replace [CR, LF] escaped_newline s)) = escape_newlines s"
proof (induction s rule: escape_newlines.induct)
  case 1
  show ?case by (simp add: replace_Nil replace_LF_then_CR)
next
  case (2 c)
  show ?case by (simp add: replace_pair_one replace_LF_then_CR)
next
  case (3 c d cs)
  then show ?case
    by (simp add: replace_pair_Cons replace_LF_then_CR escaped_newline_kept)
qed

lemma escape_as_one_pass:
  "escape_newlines_and_leading_hash t =
     (if startswith (strip (escape_newlines t)) [hash_sign]
      then bslash # escape_newlines t else escape_newlines t)"
  using three_replaces [of t]
  by (simp add: escape_newlines_and_leading_hash_def escaped_newline_def Let_def)

lemma escape_newlines_no_newline:
  "CR \<notin> set (escape_newlines t) \<and> LF \<notin> set (escape_newlines t)"
  by (induction t rule: escape_newlines.induct) (auto simp: escaped_newline_def)

lemma strip_keeps_first:
  "\<not> isspace x \<Longrightarrow> strip (x # xs) = x # rev (dropWhile isspace (rev xs))"
  by (simp add: strip_def dropWhile_append3)

lemma escape_newlines_hash:
  "escape_newlines (hash_sign # t) = hash_sign # escape_newlines t"
  by (cases t) simp_all

lemma hash_not_space: "\<not> isspace hash_sign"
  by (simp add: isspace_def hash_sign_def)

lemma set_value_stores_base:
  "cls c = Documentation \<Longrightarrow> val (data (set_value sv v c)) = PStr v"
  by (simp add: set_value_def changed_def set'_def base_set_def mark_dirty_def)

text \<open>
  Claim C6. Assigning \<^verbatim>\<open>editable_value = t\<close> on a DocumentationController leaves
  the record holding \<open>t\<close> with every CR LF, every other LF and every other CR
  replaced by a backslash and the letter n, so no CR or LF remains, and with one
  backslash put in front when that text, stripped of surrounding whitespace,
  begins with \<^verbatim>\<open>#\<close>; an input beginning with \<^verbatim>\<open>#\<close> is stored beginning with a
  backslash and \<^verbatim>\<open>#\<close>.
\<close>

theorem editable_value_is_escaped:
  assumes "cls c = Documentation"
  shows "val (data (set_editable_value sv t c)) =
           PStr (if startswith (strip (escape_newlines t)) [hash_sign]
                 then bslash # escape_newlines t else escape_newlines t) \<and>
         CR \<notin> set (escape_newlines t) \<and> LF \<notin> set (escape_newlines t) \<and>
         val (data (set_editable_value sv (hash_sign # t) c)) =
           PStr (bslash # hash_sign # escape_newlines t)"
proof -
  have "val (data (set_editable_value sv u c)) = PStr (escape_newlines_and_leading_hash u)" for u
    using assms by (simp add: set_editable_value_def set_value_stores_base)
  moreover have "escape_newlines_and_leading_hash (hash_sign # t) =
                   bslash # hash_sign # escape_newlines t"
    by (simp add: escape_as_one_pass escape_newlines_hash strip_keeps_first [OF hash_not_space]
          startswith_def)
  ultimately show ?thesis
    using escape_newlines_no_newline [of t] by (simp add: escape_as_one_pass)
qed

theorem editable_value_is_escaped_witness:
  "cls doc0 = Documentation \<and>
   val (data (set_editable_value split_value [CHR ''a'', CR, LF, CHR ''b'', CR, CHR ''c''] doc0)) =
     PStr [CHR ''a'', bslash, CHR ''n'', CHR ''b'', bslash, CHR ''n'', CHR ''c''] \<and>
   val (data (set_editable_value split_value [hash_sign, CHR ''a'', LF, CHR ''b''] doc0)) =
     PStr [bslash, hash_sign, CHR ''a'', bslash, CHR ''n'', CHR ''b'']"
proof -
  have h: "cls doc0 = Documentation"
    by (simp add: doc0_def)
  have e1: "escape_newlines [CHR ''a'', CR, LF, CHR ''b'', CR, CHR ''c''] =
              [CHR ''a'', bslash, CHR ''n'', CHR ''b'', bslash, CHR ''n'', CHR ''c'']"
    by (simp add: escaped_newline_def CR_def LF_def)
  have s1: "\<not> startswith (strip [CHR ''a'', bslash, CHR ''n'', CHR ''b'', bslash, CHR ''n'', CHR ''c''])
              [hash_sign]"
    by (simp add: strip_def isspace_def startswith_def hash_sign_def bslash_def)
  have e2: "escape_newlines [CHR ''a'', LF, CHR ''b''] = [CHR ''a'', bslash, CHR ''n'', CHR ''b'']"
    by (simp add: escaped_newline_def CR_def LF_def)
  note r1 = editable_value_is_escaped
    [OF h, of split_value "[CHR ''a'', CR, LF, CHR ''b'', CR, CHR ''c'']", THEN conjunct1]
  note r2 = editable_value_is_escaped
    [OF h, of split_value "[CHR ''a'', LF, CHR ''b'']", THEN conjunct2, THEN conjunct2,
     THEN conjunct2]
  have a: "val (data (set_editable_value split_value
                       [CHR ''a'', CR, LF, CHR ''b'', CR, CHR ''c''] doc0)) =
             PStr [CHR ''a'', bslash, CHR ''n'', CHR ''b'', bslash, CHR ''n'', CHR ''c'']"
    using r1 unfolding e1 by (simp only: s1 if_False)
  have b: "val (data (set_editable_value split_value [hash_sign, CHR ''a'', LF, CHR ''b''] doc0)) =
             PStr [bslash, hash_sign, CHR ''a'', bslash, CHR ''n'', CHR ''b'']"
    using r2 unfolding e2 by assumption
  from a b h show ?thesis
    by blast
qed

section \<open>Documentation: reading the editable value\<close>

lemma count_bslashes_run: "count_bslashes (bslashes k @ s) = k + count_bslashes s"
  by (induction k) simp_all

lemma in_run: "j < count_bslashes s \<Longrightarrow> j < length s \<and> s ! j = bslash"
proof (induction s arbitrary: j)
  case Nil
  then show ?case by simp
next
  case (Cons c cs)
  then show ?case
    by (cases j) (auto split: if_splits)
qed

lemma no_match_inside_run:
  assumes "plain_lit lit" and "j < count_bslashes s"
  shows "\<not> startswith (drop j s) lit"
proof
  assume st: "startswith (drop j s) lit"
  from in_run [OF assms(2)] have j: "j < length s" and b: "s ! j = bslash"
    by simp_all
  from j have "drop j s = s ! j # drop (Suc j) s"
    by (simp add: Cons_nth_drop_Suc)
  with st b assms(1) show False
    by (cases lit) (simp_all add: startswith_def plain_lit_def)
qed

lemma match_at_plain:
  assumes "plain_lit lit"
  shows "match_at lit s =
           (if 0 < count_bslashes s \<and> startswith (drop (count_bslashes s) s) lit
            then Some (count_bslashes s, drop (count_bslashes s + length lit) s)
            else None)"
proof (cases "count_bslashes s")
  case 0
  then show ?thesis by (simp add: match_at_def)
next
  case (Suc k)
  have none: "find (\<lambda>j. startswith (drop j s) lit) (rev [1 ..< Suc k]) = None"
    unfolding find_None_iff using no_match_inside_run [OF assms, of _ s] Suc by auto
  have "rev [1 ..< Suc (Suc k)] = Suc k # rev [1 ..< Suc k]"
    by simp
  then have "find (\<lambda>j. startswith (drop j s) lit) (rev [1 ..< Suc (Suc k)]) =
               (if startswith (drop (Suc k) s) lit then Some (Suc k) else None)"
    using none by (simp del: upt_Suc)
  with Suc show ?thesis
    by (simp add: match_at_def del: upt_Suc)
qed

lemma regexp_sub_Nil: "regexp_sub lit [] = []"
  by (subst regexp_sub.simps) (simp add: match_at_def)

lemma regexp_sub_plain_char:
  "c \<noteq> bslash \<Longrightarrow> regexp_sub lit (c # s) = c # regexp_sub lit s"
  by (subst regexp_sub.simps) (simp add: match_at_def)

lemma regexp_sub_run_match:
  assumes "plain_lit lit" and "count_bslashes s = 0" and "0 < k" and "startswith s lit"
  shows "regexp_sub lit (bslashes k @ s) =
           newline_replacer k lit @ regexp_sub lit (drop (length lit) s)"
proof -
  have "match_at lit (bslashes k @ s) = Some (k, drop (length lit) s)"
    using assms by (simp add: match_at_plain count_bslashes_run)
  then show ?thesis
    by (subst regexp_sub.simps) simp
qed

lemma regexp_sub_run_no_match:
  assumes "plain_lit lit" and "count_bslashes s = 0" and "\<not> startswith s lit"
  shows "regexp_sub lit (bslashes k @ s) = bslashes k @ regexp_sub lit s"
proof (induction k)
  case 0
  show ?case by simp
next
  case (Suc k)
  have "match_at lit (bslashes (Suc k) @ s) = None"
    using assms by (simp add: match_at_plain count_bslashes_run del: replicate_Suc)
  then have "regexp_sub lit (bslashes (Suc k) @ s) = bslash # regexp_sub lit (bslashes k @ s)"
    by (subst regexp_sub.simps) simp
  with Suc show ?case by simp
qed

lemma plain_lits [simp]: "plain_lit [CHR ''n'']" "plain_lit [CHR ''r'']" "plain_lit lit_rn"
  by (simp_all add: plain_lit_def lit_rn_def)

lemma regexp_sub_run: "plain_lit lit \<Longrightarrow> regexp_sub lit (bslashes k) = bslashes k"
  using regexp_sub_run_no_match [of lit "[]" k]
  by (auto simp: regexp_sub_Nil startswith_def plain_lit_def)

lemma pass_one_letter:
  assumes "c \<noteq> bslash" and "x \<noteq> bslash"
  shows "regexp_sub [x] (bslashes k @ c # s) =
           (if 0 < k \<and> c = x then newline_replacer k [x] @ regexp_sub [x] s
            else bslashes k @ c # regexp_sub [x] s)"
proof -
  have p: "plain_lit [x]"
    using assms(2) by (simp add: plain_lit_def)
  have z: "count_bslashes (c # s) = 0"
    using assms(1) by simp
  show ?thesis
  proof (cases "c = x")
    case True
    show ?thesis
    proof (cases k)
      case 0
      then show ?thesis using assms(1) by (simp add: regexp_sub_plain_char)
    next
      case (Suc m)
      have "startswith (c # s) [x]"
        using True by (simp add: startswith_def)
      from regexp_sub_run_match [OF p z _ this, of k] Suc True show ?thesis
        by simp
    qed
  next
    case False
    then have "\<not> startswith (c # s) [x]"
      by (simp add: startswith_def)
    from regexp_sub_run_no_match [OF p z this, of k] False assms(1) show ?thesis
      by (simp add: regexp_sub_plain_char)
  qed
qed

lemma pass_rn:
  assumes "c \<noteq> bslash"
  shows "regexp_sub lit_rn (bslashes k @ c # s) =
           (if 0 < k \<and> c = CHR ''r'' \<and> startswith s [bslash, CHR ''n'']
            then newline_replacer k lit_rn @ regexp_sub lit_rn (drop 2 s)
            else bslashes k @ c # regexp_sub lit_rn s)"
proof -
  have z: "count_bslashes (c # s) = 0"
    using assms by simp
  have st: "startswith (c # s) lit_rn \<longleftrightarrow> c = CHR ''r'' \<and> startswith s [bslash, CHR ''n'']"
    by (auto simp: startswith_def lit_rn_def)
  show ?thesis
  proof (cases "c = CHR ''r'' \<and> startswith s [bslash, CHR ''n'']")
    case True
    show ?thesis
    proof (cases k)
      case 0
      then show ?thesis using assms by (simp add: regexp_sub_plain_char)
    next
      case (Suc m)
      from True st have "startswith (c # s) lit_rn"
        by simp
      from regexp_sub_run_match [OF plain_lits(3) z _ this, of k] Suc True show ?thesis
        by (simp add: lit_rn_def numeral_2_eq_2)
    qed
  next
    case False
    with st have "\<not> startswith (c # s) lit_rn"
      by simp
    from regexp_sub_run_no_match [OF plain_lits(3) z this, of k] False assms show ?thesis
      by (auto simp: regexp_sub_plain_char)
  qed
qed

lemma startswith_two: "startswith s [x, y] \<Longrightarrow> s = x # y # drop 2 s"
  by (cases s; cases "tl s") (auto simp: startswith_def)

lemma pass_rn_even:
  assumes "even k"
  shows "regexp_sub lit_rn (bslashes k @ CHR ''r'' # s) = bslashes k @ CHR ''r'' # regexp_sub lit_rn s"
proof (cases "0 < k \<and> startswith s [bslash, CHR ''n'']")
  case True
  then have s: "s = bslash # CHR ''n'' # drop 2 s"
    by (simp add: startswith_two)
  have "regexp_sub lit_rn (bslashes 1 @ CHR ''n'' # drop 2 s) =
          bslashes 1 @ CHR ''n'' # regexp_sub lit_rn (drop 2 s)"
    by (subst pass_rn) simp_all
  with s have t: "regexp_sub lit_rn s = bslash # CHR ''n'' # regexp_sub lit_rn (drop 2 s)"
    by simp
  have "regexp_sub lit_rn (bslashes k @ CHR ''r'' # s) =
          newline_replacer k lit_rn @ regexp_sub lit_rn (drop 2 s)"
    using True by (subst pass_rn) simp_all
  with assms t show ?thesis
    by (simp add: newline_replacer_def lit_rn_def)
next
  case False
  then show ?thesis
    by (subst pass_rn) auto
qed

lemma unescape_passes: "unescape s = regexp_sub [CHR ''r''] (regexp_sub [CHR ''n''] (regexp_sub lit_rn s))"
  by (simp add: unescape_newlines_and_handle_escaped_backslashes_def newline_regexps_def lit_rn_def)

lemma odd_run: "odd k \<Longrightarrow> newline_replacer k lit = bslashes (k - 1) @ [LF]"
  by (simp add: newline_replacer_def odd_iff_mod_2_eq_one)

lemma even_run: "even k \<Longrightarrow> newline_replacer k lit = bslashes k @ lit"
  by (simp add: newline_replacer_def)

lemma run_LF:
  assumes "x \<noteq> LF" and "x \<noteq> bslash"
  shows "regexp_sub [x] (bslashes k @ LF # s) = bslashes k @ LF # regexp_sub [x] s"
  using assms by (subst pass_one_letter) auto

lemma unescape_Nil: "unescape [] = []"
  by (simp add: unescape_passes regexp_sub_Nil)

lemma unescape_plain_char: "c \<noteq> bslash \<Longrightarrow> unescape (c # s) = c # unescape s"
  by (simp add: unescape_passes regexp_sub_plain_char)

lemma unescape_run_end: "unescape (bslashes k) = bslashes k"
  by (simp add: unescape_passes regexp_sub_run)

lemma unescape_run_other:
  assumes "c \<noteq> bslash" "c \<noteq> CHR ''n''" "c \<noteq> CHR ''r''"
  shows "unescape (bslashes k @ c # s) = bslashes k @ c # unescape s"
  using assms by (simp add: unescape_passes pass_rn pass_one_letter)

lemma unescape_odd_n:
  assumes "odd k"
  shows "unescape (bslashes k @ CHR ''n'' # s) = bslashes (k - 1) @ LF # unescape s"
proof -
  from assms have k: "0 < k" by (cases k) simp_all
  have 1: "regexp_sub lit_rn (bslashes k @ CHR ''n'' # s) = bslashes k @ CHR ''n'' # regexp_sub lit_rn s"
    by (subst pass_rn) simp_all
  have 2: "regexp_sub [CHR ''n''] (bslashes k @ CHR ''n'' # t) = bslashes (k - 1) @ LF # regexp_sub [CHR ''n''] t"
    for t using k assms by (subst pass_one_letter) (simp_all add: odd_run)
  show ?thesis
    by (simp add: unescape_passes 1 2 run_LF)
qed

lemma unescape_odd_rn:
  assumes "odd k"
  shows "unescape (bslashes k @ CHR ''r'' # bslash # CHR ''n'' # s) = bslashes (k - 1) @ LF # unescape s"
proof -
  from assms have k: "0 < k" by (cases k) simp_all
  have 1: "regexp_sub lit_rn (bslashes k @ CHR ''r'' # bslash # CHR ''n'' # s) =
             bslashes (k - 1) @ LF # regexp_sub lit_rn s"
    using k assms by (subst pass_rn) (simp_all add: odd_run startswith_def)
  show ?thesis
    by (simp add: unescape_passes 1 run_LF)
qed

lemma unescape_odd_r:
  assumes "odd k" and "\<not> startswith s [bslash, CHR ''n'']"
  shows "unescape (bslashes k @ CHR ''r'' # s) = bslashes (k - 1) @ LF # unescape s"
proof -
  from assms have k: "0 < k" by (cases k) simp_all
  have 1: "regexp_sub lit_rn (bslashes k @ CHR ''r'' # s) = bslashes k @ CHR ''r'' # regexp_sub lit_rn s"
    using assms(2) by (subst pass_rn) simp_all
  have 2: "regexp_sub [CHR ''n''] (bslashes k @ CHR ''r'' # t) = bslashes k @ CHR ''r'' # regexp_sub [CHR ''n''] t"
    for t by (subst pass_one_letter) simp_all
  have 3: "regexp_sub [CHR ''r''] (bslashes k @ CHR ''r'' # t) = bslashes (k - 1) @ LF # regexp_sub [CHR ''r''] t"
    for t using k assms(1) by (subst pass_one_letter) (simp_all add: odd_run)
  show ?thesis
    by (simp add: unescape_passes 1 2 3)
qed

lemma unescape_even_n:
  assumes "even k"
  shows "unescape (bslashes k @ CHR ''n'' # s) = bslashes k @ CHR ''n'' # unescape s"
proof -
  have 1: "regexp_sub lit_rn (bslashes k @ CHR ''n'' # s) = bslashes k @ CHR ''n'' # regexp_sub lit_rn s"
    by (subst pass_rn) simp_all
  have 2: "regexp_sub [CHR ''n''] (bslashes k @ CHR ''n'' # t) = bslashes k @ CHR ''n'' # regexp_sub [CHR ''n''] t"
    for t using assms by (subst pass_one_letter) (simp_all add: even_run)
  have 3: "regexp_sub [CHR ''r''] (bslashes k @ CHR ''n'' # t) = bslashes k @ CHR ''n'' # regexp_sub [CHR ''r''] t"
    for t by (subst pass_one_letter) simp_all
  show ?thesis
    by (simp add: unescape_passes 1 2 3)
qed

lemma unescape_even_r:
  assumes "even k"
  shows "unescape (bslashes k @ CHR ''r'' # s) = bslashes k @ CHR ''r'' # unescape s"
proof -
  have 2: "regexp_sub [CHR ''n''] (bslashes k @ CHR ''r'' # t) = bslashes k @ CHR ''r'' # regexp_sub [CHR ''n''] t"
    for t by (subst pass_one_letter) simp_all
  have 3: "regexp_sub [CHR ''r''] (bslashes k @ CHR ''r'' # t) = bslashes k @ CHR ''r'' # regexp_sub [CHR ''r''] t"
    for t using assms by (subst pass_one_letter) (simp_all add: even_run)
  show ?thesis
    by (simp add: unescape_passes pass_rn_even [OF assms] 2 3)
qed

lemma get_editable_value_unescapes:
  "val (data c) = PStr s \<Longrightarrow> get_editable_value c = Inr (unescape s)"
  by (simp add: get_editable_value_def)

lemma run_decomposition:
  "s = bslashes (count_bslashes s) @ drop (count_bslashes s) s \<and>
   count_bslashes (drop (count_bslashes s) s) = 0"
  by (induction s) simp_all

text \<open>
  Claim C5, as amended. \<^verbatim>\<open>editable_value\<close> reads the stored text from left to right
  in maximal runs of backslashes (by \<open>run_decomposition\<close> every text is empty, or
  begins with another character, or begins with such a run). A run of \<open>k\<close>
  backslashes followed by \<^verbatim>\<open>n\<close>, by \<^verbatim>\<open>r\<close>, or by \<^verbatim>\<open>r\<close>, one backslash and \<^verbatim>\<open>n\<close>
  becomes \<open>k - 1\<close> backslashes and a newline when \<open>k\<close> is odd. When \<open>k\<close> is even the
  run and the letter \<^verbatim>\<open>n\<close> or \<^verbatim>\<open>r\<close> after it stay as they are and reading goes on
  after the letter, so that behind an even run and \<^verbatim>\<open>r\<close> a following backslash and
  \<^verbatim>\<open>n\<close> is a run of one and becomes a newline. Every other character, and a run
  followed by anything else, is copied.
\<close>

theorem unescape_by_parity:
  "unescape [] = [] \<and>
   (c \<noteq> bslash \<longrightarrow> unescape (c # s) = c # unescape s) \<and>
   (odd k \<longrightarrow> unescape (bslashes k @ CHR ''n'' # s) = bslashes (k - 1) @ LF # unescape s) \<and>
   (odd k \<longrightarrow>
      unescape (bslashes k @ CHR ''r'' # bslash # CHR ''n'' # s) =
        bslashes (k - 1) @ LF # unescape s) \<and>
   (odd k \<and> \<not> startswith s [bslash, CHR ''n''] \<longrightarrow>
      unescape (bslashes k @ CHR ''r'' # s) = bslashes (k - 1) @ LF # unescape s) \<and>
   (even k \<longrightarrow> unescape (bslashes k @ CHR ''n'' # s) = bslashes k @ CHR ''n'' # unescape s) \<and>
   (even k \<longrightarrow> unescape (bslashes k @ CHR ''r'' # s) = bslashes k @ CHR ''r'' # unescape s) \<and>
   (c \<noteq> bslash \<and> c \<noteq> CHR ''n'' \<and> c \<noteq> CHR ''r'' \<longrightarrow>
      unescape (bslashes k @ c # s) = bslashes k @ c # unescape s) \<and>
   unescape (bslashes k) = bslashes k"
  using unescape_Nil unescape_plain_char [of c s] unescape_odd_n [of k s]
    unescape_odd_rn [of k s] unescape_odd_r [of k s] unescape_even_n [of k s]
    unescape_even_r [of k s] unescape_run_other [of c k s] unescape_run_end [of k]
  by blast

text \<open>
  The two examples of the specification: one backslash before \<^verbatim>\<open>n\<close> gives a
  newline, two backslashes leave the text as it is.
\<close>

theorem unescape_by_parity_witness:
  "odd (1::nat) \<and> even (2::nat) \<and> CHR ''a'' \<noteq> bslash \<and> CHR ''b'' \<noteq> bslash \<and>
   unescape [CHR ''a'', bslash, CHR ''n'', CHR ''b''] = [CHR ''a'', LF, CHR ''b''] \<and>
   unescape [CHR ''a'', bslash, bslash, CHR ''n'', CHR ''b''] =
     [CHR ''a'', bslash, bslash, CHR ''n'', CHR ''b'']"
proof -
  have ab: "CHR ''a'' \<noteq> bslash" "CHR ''b'' \<noteq> bslash"
    by (simp_all add: bslash_def)
  have b: "unescape [CHR ''b''] = [CHR ''b'']"
    using unescape_by_parity [of "CHR ''b''" "[]" 0] ab by simp
  have n1: "unescape (bslashes 1 @ CHR ''n'' # [CHR ''b'']) = bslashes (1 - 1) @ LF # [CHR ''b'']"
    using unescape_by_parity [of "CHR ''b''" "[CHR ''b'']" 1] b by simp
  have n2: "unescape (bslashes 2 @ CHR ''n'' # [CHR ''b'']) = bslashes 2 @ CHR ''n'' # [CHR ''b'']"
    using unescape_by_parity [of "CHR ''b''" "[CHR ''b'']" 2] b by simp
  have 1: "unescape [CHR ''a'', bslash, CHR ''n'', CHR ''b''] = [CHR ''a'', LF, CHR ''b'']"
    using unescape_by_parity [of "CHR ''a''" "[bslash, CHR ''n'', CHR ''b'']" 0] ab n1
    by simp
  have 2: "unescape [CHR ''a'', bslash, bslash, CHR ''n'', CHR ''b''] =
             [CHR ''a'', bslash, bslash, CHR ''n'', CHR ''b'']"
    using unescape_by_parity [of "CHR ''a''" "[bslash, bslash, CHR ''n'', CHR ''b'']" 0] ab n2
    by (simp add: numeral_2_eq_2)
  from 1 2 ab show ?thesis
    by simp
qed

text \<open>
  The claim as stated fails on an even run followed by \<^verbatim>\<open>r\<close>, a backslash and
  \<^verbatim>\<open>n\<close>: two backslashes and \<^verbatim>\<open>r\<close> stay, but the backslash and \<^verbatim>\<open>n\<close> behind them
  become a newline, so the occurrence is not left unchanged.
\<close>

theorem even_run_before_rn_counterexample:
  "unescape [bslash, bslash, CHR ''r'', bslash, CHR ''n''] = [bslash, bslash, CHR ''r'', LF] \<and>
   unescape [bslash, bslash, CHR ''r'', bslash, CHR ''n''] \<noteq>
     [bslash, bslash, CHR ''r'', bslash, CHR ''n'']"
proof -
  have "unescape (bslashes 1 @ CHR ''n'' # []) = bslashes (1 - 1) @ LF # unescape []"
    by (rule unescape_odd_n) simp
  then have n: "unescape [bslash, CHR ''n''] = [LF]"
    by (simp add: unescape_Nil)
  have "unescape (bslashes 2 @ CHR ''r'' # [bslash, CHR ''n'']) =
          bslashes 2 @ CHR ''r'' # unescape [bslash, CHR ''n'']"
    by (rule unescape_even_r) simp
  with n show ?thesis
    by (simp add: numeral_2_eq_2)
qed

end
